theory Spec2Isabelle
  imports Main "HOL-Library.Word" "HOL-Library.List_Lexorder" "HOL-Library.Multiset"
begin

section \<open>The command palette of web/src/components/CommandPalette.tsx\<close>

subsection \<open>Strings\<close>

text \<open>
  A JavaScript string is a sequence of UTF-16 code units: \<open>slice\<close>, \<open>split\<close> and the
  default comparison of \<open>Array.prototype.sort\<close> all work on code units. A literal of
  the source is written \<open>lit ''...''\<close>.
\<close>

type_synonym code_unit = "16 word"
type_synonym jsstring = "code_unit list"

definition lit :: "string \<Rightarrow> jsstring" where
  "lit s = map of_char s"

text \<open>
  \<open>s.split(sep)\<close> for a separator of one code unit: the segments between the
  occurrences of the separator, never an empty array (\<open>"".split("/")\<close> is \<open>[""]\<close>).
\<close>

fun split :: "'a list \<Rightarrow> 'a \<Rightarrow> 'a list list" where
  "split [] sep = [[]]"
| "split (c # cs) sep =
     (if c = sep then [] # split cs sep
      else (case split cs sep of
              [] \<Rightarrow> [[c]]
            | seg # segs \<Rightarrow> (c # seg) # segs))"

text \<open>\<open>xs.pop()\<close> read for its result: the last element, \<open>undefined\<close> on an empty array.\<close>

definition pop :: "'a list \<Rightarrow> 'a option" where
  "pop xs = (if xs = [] then None else Some (last xs))"

text \<open>\<open>s.slice(0, n)\<close> for \<open>0 \<le> n\<close>: the first \<open>n\<close> code units, all of \<open>s\<close> when it is shorter.\<close>

definition slice0 :: "jsstring \<Rightarrow> nat \<Rightarrow> jsstring" where
  "slice0 s n = take n s"

subsection \<open>Collaborators\<close>

text \<open>
  Modelled from the spec: the enum \<open>State\<close> of types/proto/api/v1/common, of which the
  component uses \<open>State.NORMAL\<close> (the active status) only.
\<close>

datatype State = STATE_UNSPECIFIED | NORMAL | ARCHIVED

text \<open>The request object passed to \<open>memoStore.fetchMemos\<close>.\<close>

record ListMemosRequest =
  parent :: jsstring
  state :: State
  orderBy :: jsstring
  pageSize :: int

text \<open>The two fields of a memo that the component reads.\<close>

record Memo =
  name :: jsstring
  content :: jsstring

text \<open>The constraint passed to \<open>memoFilterStore.addFilter\<close>.\<close>

record MemoFilter =
  factor :: jsstring
  filter_value :: jsstring

text \<open>
  The route table \<open>Routes\<close> of the router is not part of the component; its six paths
  are a parameter.
\<close>

record Routes =
  ROOT :: jsstring
  INBOX :: jsstring
  ATTACHMENTS :: jsstring
  ARCHIVED_route :: jsstring
  SETTING :: jsstring
  EXPLORE :: jsstring

text \<open>What of a keyboard event the handler reads.\<close>

record KeyboardEvent =
  key :: jsstring
  metaKey :: bool
  ctrlKey :: bool

text \<open>The calls the component makes on its collaborators, in the order they are made.\<close>

datatype call =
    FetchMemos ListMemosRequest
  | NavigateTo jsstring
  | AddFilter MemoFilter
  | PreventDefault

text \<open>
  How the promise returned by \<open>memoStore.fetchMemos\<close> settles. The value of a fulfilled
  promise and the reason of a rejected one are never read by the component.
\<close>

datatype outcome = Resolved | Rejected

subsection \<open>State\<close>

text \<open>
  The two \<open>useState\<close> cells of the component, together with what the component can
  observe or cause outside itself: the snapshot \<open>memoStore.state.memos\<close>, the number of
  fetches whose promise has not settled yet, the log of calls, and the number of promises
  that were rejected with no handler attached (each is reported by the host as an
  unhandled rejection).
\<close>

record world =
  "open" :: bool
  hasFetchedMemos :: bool
  memos :: "Memo list"
  inflight :: nat
  calls :: "call list"
  unhandled :: nat

subsection \<open>Effects and handlers\<close>

text \<open>
  The body of the first \<open>useEffect\<close>. The callback of \<open>.finally\<close> runs later, when the
  promise settles (see \<open>settled\<close>).
\<close>

definition recentRequest :: ListMemosRequest where
  "recentRequest =
     \<lparr>parent = lit '''', state = NORMAL, orderBy = lit ''display_time desc'', pageSize = 20\<rparr>"

definition fetchEffect :: "world \<Rightarrow> world" where
  "fetchEffect w =
     (if open w \<and> \<not> hasFetchedMemos w
      then w\<lparr>calls := calls w @ [FetchMemos recentRequest], inflight := Suc (inflight w)\<rparr>
      else w)"

text \<open>
  \<open>p.finally(cb)\<close> for a callback that returns normally: when \<open>p\<close> settles the callback
  runs, and the promise that \<open>finally\<close> returns settles as \<open>p\<close> did, so a rejection
  passes through it.
\<close>

definition promiseFinally :: "outcome \<Rightarrow> (world \<Rightarrow> world) \<Rightarrow> world \<Rightarrow> world \<times> outcome" where
  "promiseFinally out cb w = (cb w, out)"

text \<open>
  The promise of a fetch settles and the callback \<open>() => setHasFetchedMemos(true)\<close> runs.
  The effect drops the promise that \<open>.finally\<close> returns and there is no \<open>.catch\<close>: when
  that promise is rejected it has no handler, which the host records as an unhandled
  rejection. With no fetch in flight there is nothing to settle.
\<close>

definition settled :: "outcome \<Rightarrow> world \<Rightarrow> world" where
  "settled out w =
     (if inflight w = 0 then w
      else (case promiseFinally out (\<lambda>v. v\<lparr>hasFetchedMemos := True\<rparr>)
                  (w\<lparr>inflight := inflight w - 1\<rparr>) of
              (w', Resolved) \<Rightarrow> w'
            | (w', Rejected) \<Rightarrow> w'\<lparr>unhandled := Suc (unhandled w')\<rparr>))"

definition handleKeyDown :: "KeyboardEvent \<Rightarrow> world \<Rightarrow> world" where
  "handleKeyDown e w =
     (if (key e = lit ''k'' \<or> key e = lit ''K'') \<and> (metaKey e \<or> ctrlKey e)
      then w\<lparr>calls := calls w @ [PreventDefault], open := \<not> open w\<rparr>
      else if key e = lit ''Escape'' then w\<lparr>open := False\<rparr>
      else w)"

definition handleNavigate :: "jsstring \<Rightarrow> world \<Rightarrow> world" where
  "handleNavigate path w = w\<lparr>calls := calls w @ [NavigateTo path], open := False\<rparr>"

text \<open>\<open>if (uid)\<close> holds for a string that is neither \<open>undefined\<close> nor empty.\<close>

definition handleMemoSelect :: "jsstring \<Rightarrow> world \<Rightarrow> world" where
  "handleMemoSelect nm w =
     (case pop (split nm (of_char CHR ''/'')) of
        None \<Rightarrow> w
      | Some uid \<Rightarrow> if uid \<noteq> [] then handleNavigate (lit ''/memos/'' @ uid) w else w)"

definition handleTagSelect :: "jsstring \<Rightarrow> world \<Rightarrow> world" where
  "handleTagSelect tag w =
     w\<lparr>calls := calls w @ [AddFilter \<lparr>factor = lit ''tagSearch'', filter_value = tag\<rparr>],
       open := False\<rparr>"

text \<open>The three closures that the render attaches to items as \<open>onSelect\<close>.\<close>

datatype onSelect =
    Navigate jsstring
  | MemoSelect jsstring
  | TagSelect jsstring

fun select :: "onSelect \<Rightarrow> world \<Rightarrow> world" where
  "select (Navigate path) w = handleNavigate path w"
| "select (MemoSelect nm) w = handleMemoSelect nm w"
| "select (TagSelect tag) w = handleTagSelect tag w"

subsection \<open>Events within one mount\<close>

text \<open>
  What can happen to a mounted palette: a key goes down on the window, the dialog asks
  for a new open flag (\<open>onOpenChange={setOpen}\<close>), an item is selected, the promise of a
  fetch settles, or the observed store replaces its list of memos (as it does when a
  fetch has brought some), which renders the component again.
\<close>

datatype event =
    KeyDown KeyboardEvent
  | OpenChange bool
  | Select onSelect
  | Settled outcome
  | StoreChanged "Memo list"

fun handle :: "event \<Rightarrow> world \<Rightarrow> world" where
  "handle (KeyDown e) w = handleKeyDown e w"
| "handle (OpenChange b) w = w\<lparr>open := b\<rparr>"
| "handle (Select c) w = select c w"
| "handle (Settled out) w = settled out w"
| "handle (StoreChanged ms) w = w\<lparr>memos := ms\<rparr>"

text \<open>
  After the render that follows an event, React runs the fetch effect if one of its
  dependencies \<open>[open, hasFetchedMemos]\<close> differs from the render before.
\<close>

definition commit :: "world \<Rightarrow> world \<Rightarrow> world" where
  "commit prev w =
     (if open w \<noteq> open prev \<or> hasFetchedMemos w \<noteq> hasFetchedMemos prev
      then fetchEffect w else w)"

definition step :: "world \<Rightarrow> event \<Rightarrow> world" where
  "step w ev = commit w (handle ev w)"

text \<open>Mounting: both cells start false, and the effect runs after the first render.\<close>

definition mount :: "Memo list \<Rightarrow> world" where
  "mount ms =
     fetchEffect
       \<lparr>open = False, hasFetchedMemos = False, memos = ms, inflight = 0, calls = [],
        unhandled = 0\<rparr>"

fun run :: "world \<Rightarrow> event list \<Rightarrow> world" where
  "run w [] = w"
| "run w (ev # evs) = run (step w ev) evs"

text \<open>The fetch requests among the calls made so far.\<close>

fun fetches :: "call list \<Rightarrow> ListMemosRequest list" where
  "fetches [] = []"
| "fetches (FetchMemos r # cs) = r # fetches cs"
| "fetches (c # cs) = fetches cs"

text \<open>An event issues a fetch when it opens a closed palette whose flag is still unset.\<close>

definition issues :: "world \<Rightarrow> event \<Rightarrow> bool" where
  "issues w ev \<longleftrightarrow> \<not> open w \<and> open (step w ev) \<and> \<not> hasFetchedMemos (step w ev)"

text \<open>The palette is open at some moment of a trace.\<close>

fun everOpen :: "world \<Rightarrow> event list \<Rightarrow> bool" where
  "everOpen w [] = open w"
| "everOpen w (ev # evs) = (open w \<or> everOpen (step w ev) evs)"

text \<open>
  A trace reopens in flight when some event takes the palette from closed to open while
  a fetch has not settled.
\<close>

fun reopensInFlight :: "world \<Rightarrow> event list \<Rightarrow> bool" where
  "reopensInFlight w [] = False"
| "reopensInFlight w (ev # evs) =
     ((0 < inflight w \<and> \<not> open w \<and> open (step w ev)) \<or> reopensInFlight (step w ev) evs)"

subsection \<open>Render\<close>

datatype icon =
    HomeIcon | InboxIcon | PaperclipIcon | ArchiveIcon | SettingsIcon | CompassIcon
  | FileTextIcon | HashIcon

record action =
  action_id :: jsstring
  action_label :: jsstring
  action_path :: jsstring
  action_icon :: icon

definition staticActions :: "Routes \<Rightarrow> action list" where
  "staticActions routes =
     [\<lparr>action_id = lit ''home'', action_label = lit ''Home'',
        action_path = ROOT routes, action_icon = HomeIcon\<rparr>,
      \<lparr>action_id = lit ''inbox'', action_label = lit ''Inbox'',
        action_path = INBOX routes, action_icon = InboxIcon\<rparr>,
      \<lparr>action_id = lit ''attachments'', action_label = lit ''Attachments'',
        action_path = ATTACHMENTS routes, action_icon = PaperclipIcon\<rparr>,
      \<lparr>action_id = lit ''archived'', action_label = lit ''Archived'',
        action_path = ARCHIVED_route routes, action_icon = ArchiveIcon\<rparr>,
      \<lparr>action_id = lit ''settings'', action_label = lit ''Settings'',
        action_path = SETTING routes, action_icon = SettingsIcon\<rparr>,
      \<lparr>action_id = lit ''explore'', action_label = lit ''Explore'',
        action_path = EXPLORE routes, action_icon = CompassIcon\<rparr>]"

text \<open>
  \<open>userStore.state.tagCount\<close> is an object from tag names to counts: an association
  list in the object's iteration order. \<open>Object.keys\<close> lists the names in that order, and
  \<open>sort()\<close> without a comparator orders strings by their code units.
\<close>

type_synonym tagCount = "(jsstring \<times> nat) list"

definition keys :: "tagCount \<Rightarrow> jsstring list" where
  "keys tc = map fst tc"

definition tagItems :: "tagCount \<Rightarrow> jsstring list" where
  "tagItems tc = sort (keys tc)"

text \<open>A \<open>CommandItem\<close>: its key, its icon, the text of its span and its \<open>onSelect\<close>.\<close>

record item =
  item_key :: jsstring
  item_icon :: icon
  item_label :: jsstring
  item_onSelect :: onSelect

text \<open>The children of \<open>CommandList\<close>.\<close>

datatype element =
    CommandEmpty jsstring
  | CommandGroup jsstring "item list"
  | CommandSeparator

record dialog =
  dialog_open :: bool
  placeholder :: jsstring
  commandList :: "element list"

definition actionItem :: "action \<Rightarrow> item" where
  "actionItem a =
     \<lparr>item_key = action_id a, item_icon = action_icon a, item_label = action_label a,
      item_onSelect = Navigate (action_path a)\<rparr>"

text \<open>\<open>memo.content.slice(0, 50) || memo.name\<close>: the right operand when the left is empty.\<close>

definition memoLabel :: "Memo \<Rightarrow> jsstring" where
  "memoLabel memo =
     (let s = slice0 (content memo) 50 in if s \<noteq> [] then s else name memo)"

definition memoItem :: "Memo \<Rightarrow> item" where
  "memoItem memo =
     \<lparr>item_key = name memo, item_icon = FileTextIcon, item_label = memoLabel memo,
      item_onSelect = MemoSelect (name memo)\<rparr>"

definition tagItem :: "jsstring \<Rightarrow> item" where
  "tagItem tag =
     \<lparr>item_key = tag, item_icon = HashIcon, item_label = lit ''#'' @ tag,
      item_onSelect = TagSelect tag\<rparr>"

text \<open>
  The render. A group guarded by \<open>xs.length > 0 && ...\<close> contributes nothing when the
  guard is false. The placeholder ends in the ellipsis U+2026.
\<close>

definition render :: "Routes \<Rightarrow> tagCount \<Rightarrow> world \<Rightarrow> dialog" where
  "render routes tc w =
     (let memoItems = memos w; tags = tagItems tc in
      \<lparr>dialog_open = open w,
       placeholder = lit ''Type a command or search'' @ [0x2026],
       commandList =
         [CommandEmpty (lit ''No results found.''),
          CommandGroup (lit ''Navigate'') (map actionItem (staticActions routes))]
         @ (if length memoItems > 0
            then [CommandSeparator, CommandGroup (lit ''Recent Memos'') (map memoItem memoItems)]
            else [])
         @ (if length tags > 0
            then [CommandSeparator, CommandGroup (lit ''Tags'') (map tagItem tags)]
            else [])\<rparr>)"

text \<open>The headings of the groups of a command list, and its number of separators.\<close>

fun headings :: "element list \<Rightarrow> jsstring list" where
  "headings [] = []"
| "headings (CommandGroup h its # es) = h # headings es"
| "headings (e # es) = headings es"

definition separators :: "element list \<Rightarrow> nat" where
  "separators es = count_list es CommandSeparator"

text \<open>The items displayed under a heading of a command list.\<close>

fun groupItems :: "jsstring \<Rightarrow> element list \<Rightarrow> item list" where
  "groupItems h [] = []"
| "groupItems h (CommandGroup h' its # es) = (if h' = h then its else []) @ groupItems h es"
| "groupItems h (e # es) = groupItems h es"

subsection \<open>Sample inputs\<close>

definition ctrlK :: KeyboardEvent where
  "ctrlK = \<lparr>key = lit ''k'', metaKey = False, ctrlKey = True\<rparr>"

definition cmdShiftK :: KeyboardEvent where
  "cmdShiftK = \<lparr>key = lit ''K'', metaKey = True, ctrlKey = False\<rparr>"

definition escape :: KeyboardEvent where
  "escape = \<lparr>key = lit ''Escape'', metaKey = False, ctrlKey = False\<rparr>"

definition plainK :: KeyboardEvent where
  "plainK = \<lparr>key = lit ''k'', metaKey = False, ctrlKey = False\<rparr>"

definition sampleRoutes :: Routes where
  "sampleRoutes =
     \<lparr>ROOT = lit ''/'', INBOX = lit ''/inbox'', ATTACHMENTS = lit ''/attachments'',
      ARCHIVED_route = lit ''/archived'', SETTING = lit ''/setting'',
      EXPLORE = lit ''/explore''\<rparr>"

definition sampleMemo :: Memo where
  "sampleMemo = \<lparr>name = lit ''memos/abc123'', content = lit ''Buy milk''\<rparr>"

definition opened :: world where
  "opened = step (mount []) (KeyDown ctrlK)"

section \<open>Properties\<close>

subsection \<open>Strings\<close>

lemma split_not_Nil: "split xs sep \<noteq> []"
  by (induction xs) (auto split: list.splits)

lemma split_no_sep: "sep \<notin> set xs \<Longrightarrow> split xs sep = [xs]"
  by (induction xs) auto

lemma split_append_sep: "split (p @ sep # s) sep = split p sep @ split s sep"
  by (induction p) (auto simp add: split_not_Nil split: list.splits)

lemma last_split_append: "sep \<notin> set seg \<Longrightarrow> last (split (p @ sep # seg) sep) = seg"
  by (simp add: split_append_sep split_no_sep)

lemma length_split: "length (split xs sep) = Suc (length (filter (\<lambda>c. c = sep) xs))"
  by (induction xs) (auto simp add: split_not_Nil split: list.splits)

lemma last_split_snoc:
  "c \<noteq> sep \<Longrightarrow> last (split (xs @ [c]) sep) = last (split xs sep) @ [c]"
proof (induction xs)
  case Nil
  then show ?case by simp
next
  case (Cons a xs)
  have len: "length (split (xs @ [c]) sep) = length (split xs sep)"
    using Cons.prems by (simp add: length_split)
  show ?case
  proof (cases "a = sep")
    case True
    then show ?thesis using Cons by (simp add: split_not_Nil)
  next
    case False
    obtain s1 ss1 where s1: "split (xs @ [c]) sep = s1 # ss1"
      by (cases "split (xs @ [c]) sep") (simp_all add: split_not_Nil)
    obtain s2 ss2 where s2: "split xs sep = s2 # ss2"
      by (cases "split xs sep") (simp_all add: split_not_Nil)
    from len s1 s2 have "(ss1 = []) = (ss2 = [])" by auto
    with Cons s1 s2 False show ?thesis by auto
  qed
qed

lemma last_split_empty: "last (split xs sep) = [] \<longleftrightarrow> xs = [] \<or> last xs = sep"
proof (cases xs rule: rev_cases)
  case Nil
  then show ?thesis by simp
next
  case (snoc ys c)
  show ?thesis
  proof (cases "c = sep")
    case True
    have "split (ys @ sep # []) sep = split ys sep @ split [] sep"
      by (rule split_append_sep)
    with snoc True show ?thesis by simp
  next
    case False
    with snoc show ?thesis by (simp add: last_split_snoc)
  qed
qed

subsection \<open>One event\<close>

lemma fetches_append: "fetches (xs @ ys) = fetches xs @ fetches ys"
  by (induction xs rule: fetches.induct) simp_all

lemma select_fields:
  "hasFetchedMemos (select c w) = hasFetchedMemos w"
  "inflight (select c w) = inflight w"
  "memos (select c w) = memos w"
  "fetches (calls (select c w)) = fetches (calls w)"
  by (cases c;
      simp add: handleNavigate_def handleMemoSelect_def handleTagSelect_def fetches_append
        split: option.splits)+

lemma keyDown_fields:
  "hasFetchedMemos (handleKeyDown e w) = hasFetchedMemos w"
  "inflight (handleKeyDown e w) = inflight w"
  "memos (handleKeyDown e w) = memos w"
  "fetches (calls (handleKeyDown e w)) = fetches (calls w)"
  by (simp_all add: handleKeyDown_def fetches_append)

lemma settled_fields:
  "hasFetchedMemos (settled out w) = (hasFetchedMemos w \<or> 0 < inflight w)"
  "inflight (settled out w) = inflight w - 1"
  "open (settled out w) = open w"
  "memos (settled out w) = memos w"
  "calls (settled out w) = calls w"
  by (cases out; simp add: settled_def promiseFinally_def)+

lemma handle_hasFetched:
  "hasFetchedMemos (handle ev w) =
     (hasFetchedMemos w \<or> (\<exists>out. ev = Settled out) \<and> 0 < inflight w)"
  by (cases ev) (simp_all add: select_fields keyDown_fields settled_fields)

lemma handle_inflight:
  "inflight (handle ev w) = (if \<exists>out. ev = Settled out then inflight w - 1 else inflight w)"
  by (cases ev) (simp_all add: select_fields keyDown_fields settled_fields)

lemma handle_fetches: "fetches (calls (handle ev w)) = fetches (calls w)"
  by (cases ev) (simp_all add: select_fields keyDown_fields settled_fields)

lemma commit_fields:
  "open (commit prev w) = open w"
  "hasFetchedMemos (commit prev w) = hasFetchedMemos w"
  "memos (commit prev w) = memos w"
  by (simp_all add: commit_def fetchEffect_def)

lemma step_open: "open (step w ev) = open (handle ev w)"
  by (simp add: step_def commit_fields)

lemma step_hasFetched:
  "hasFetchedMemos (step w ev) =
     (hasFetchedMemos w \<or> (\<exists>out. ev = Settled out) \<and> 0 < inflight w)"
  by (simp add: step_def commit_fields handle_hasFetched)

lemma step_fetches:
  "fetches (calls (step w ev)) =
     fetches (calls w) @ (if issues w ev then [recentRequest] else [])"
proof (cases "\<exists>out. ev = Settled out")
  case True
  then show ?thesis
    by (auto simp add: issues_def step_open settled_fields step_def commit_def fetchEffect_def)
next
  case False
  then have "hasFetchedMemos (handle ev w) = hasFetchedMemos w"
    by (simp add: handle_hasFetched)
  then show ?thesis
    by (auto simp add: issues_def step_open step_hasFetched step_def commit_def fetchEffect_def
        fetches_append handle_fetches)
qed

lemma step_inflight:
  "inflight (step w ev) =
     (if issues w ev then Suc (inflight w)
      else if \<exists>out. ev = Settled out then inflight w - 1 else inflight w)"
proof (cases "\<exists>out. ev = Settled out")
  case True
  then show ?thesis
    by (auto simp add: issues_def step_open settled_fields step_def commit_def fetchEffect_def)
next
  case False
  then have "hasFetchedMemos (handle ev w) = hasFetchedMemos w"
    by (simp add: handle_hasFetched)
  with False show ?thesis
    by (auto simp add: issues_def step_open step_hasFetched step_def commit_def fetchEffect_def
        handle_inflight)
qed

lemma step_select_closed: "\<not> open (select c w) \<Longrightarrow> step w (Select c) = select c w"
  by (simp add: step_def commit_def fetchEffect_def)

lemma step_settled:
  "0 < inflight w \<Longrightarrow>
   step w (Settled out) =
     w\<lparr>inflight := inflight w - 1, hasFetchedMemos := True,
       unhandled := (if out = Rejected then Suc (unhandled w) else unhandled w)\<rparr>"
  by (cases out) (simp_all add: step_def commit_def fetchEffect_def settled_def promiseFinally_def)

lemma mount_simp:
  "mount ms =
     \<lparr>open = False, hasFetchedMemos = False, memos = ms, inflight = 0, calls = [],
      unhandled = 0\<rparr>"
  by (simp add: mount_def fetchEffect_def)

subsection \<open>Traces\<close>

text \<open>Once the flag is set, no event issues a fetch.\<close>

lemma run_fetched:
  "hasFetchedMemos w \<Longrightarrow>
     hasFetchedMemos (run w evs) \<and> fetches (calls (run w evs)) = fetches (calls w)"
proof (induction evs arbitrary: w)
  case Nil
  then show ?case by simp
next
  case (Cons ev evs)
  from Cons.prems have hf: "hasFetchedMemos (step w ev)"
    by (simp add: step_hasFetched)
  then have "\<not> issues w ev" by (simp add: issues_def)
  then have "fetches (calls (step w ev)) = fetches (calls w)"
    by (simp add: step_fetches)
  with Cons.IH [OF hf] show ?case by simp
qed

text \<open>After the one fetch: it is in flight or has settled, and nothing reopens in flight.\<close>

lemma run_issued:
  "fetches (calls w) = [recentRequest] \<Longrightarrow> hasFetchedMemos w \<or> 0 < inflight w \<Longrightarrow>
   \<not> reopensInFlight w evs \<Longrightarrow> fetches (calls (run w evs)) = [recentRequest]"
proof (induction evs arbitrary: w)
  case Nil
  then show ?case by simp
next
  case (Cons ev evs)
  from Cons.prems(2,3) have ni: "\<not> issues w ev"
    by (auto simp add: issues_def step_hasFetched)
  then have f: "fetches (calls (step w ev)) = [recentRequest]"
    using Cons.prems(1) by (simp add: step_fetches)
  from Cons.prems(2) ni have "hasFetchedMemos (step w ev) \<or> 0 < inflight (step w ev)"
    by (auto simp add: step_hasFetched step_inflight)
  moreover from Cons.prems(3) have "\<not> reopensInFlight (step w ev) evs" by simp
  ultimately show ?case using Cons.IH f by simp
qed

text \<open>Before any fetch: closed, flag unset, nothing in flight.\<close>

lemma run_fresh:
  "fetches (calls w) = [] \<Longrightarrow> \<not> open w \<Longrightarrow> \<not> hasFetchedMemos w \<Longrightarrow> inflight w = 0 \<Longrightarrow>
   \<not> reopensInFlight w evs \<Longrightarrow>
   fetches (calls (run w evs)) = (if everOpen w evs then [recentRequest] else [])"
proof (induction evs arbitrary: w)
  case Nil
  then show ?case by simp
next
  case (Cons ev evs)
  from Cons.prems(3,4) have nhf: "\<not> hasFetchedMemos (step w ev)"
    by (simp add: step_hasFetched)
  from Cons.prems(5) have nr: "\<not> reopensInFlight (step w ev) evs" by simp
  show ?case
  proof (cases "open (step w ev)")
    case True
    with Cons.prems(2) nhf have i: "issues w ev" by (simp add: issues_def)
    then have "fetches (calls (step w ev)) = [recentRequest]" "0 < inflight (step w ev)"
      using Cons.prems(1) by (simp_all add: step_fetches step_inflight)
    then have "fetches (calls (run (step w ev) evs)) = [recentRequest]"
      using nr by (simp add: run_issued)
    moreover have "everOpen (step w ev) evs" using True by (cases evs) simp_all
    ultimately show ?thesis by simp
  next
    case False
    then have ni: "\<not> issues w ev" by (simp add: issues_def)
    then have "fetches (calls (step w ev)) = []" "inflight (step w ev) = 0"
      using Cons.prems(1,4) by (simp_all add: step_fetches step_inflight)
    with Cons.IH [OF _ False nhf _ nr] Cons.prems(2) show ?thesis by simp
  qed
qed

subsection \<open>Render\<close>

lemma tagItems_Nil: "tagItems tc = [] \<longleftrightarrow> tc = []"
proof -
  have "length (tagItems tc) = length tc" by (simp add: tagItems_def keys_def)
  then show ?thesis by (metis length_0_conv)
qed

lemma commandList_render:
  "commandList (render routes tc w) =
     [CommandEmpty (lit ''No results found.''),
      CommandGroup (lit ''Navigate'') (map actionItem (staticActions routes))]
     @ (if memos w = [] then []
        else [CommandSeparator, CommandGroup (lit ''Recent Memos'') (map memoItem (memos w))])
     @ (if tc = [] then []
        else [CommandSeparator, CommandGroup (lit ''Tags'') (map tagItem (tagItems tc))])"
  by (simp add: render_def Let_def tagItems_Nil)

lemma heading_neq:
  "lit ''Recent Memos'' \<noteq> lit ''Navigate''" "lit ''Recent Memos'' \<noteq> lit ''Tags''"
  "lit ''Tags'' \<noteq> lit ''Navigate''"
  by (simp_all add: lit_def)

section \<open>The claims\<close>

text \<open>
  C1 (as the code has it). In every trace of one mount that does not take the palette
  from closed to open while a fetch is in flight, a fetch is issued exactly once if the
  palette is ever open and never otherwise; this holds for every prefix of the trace, so
  the fetch is issued by the first closed-to-open transition. An event that opens a
  closed palette with the flag unset and nothing in flight issues one fetch, an event
  that is not a closed-to-open transition issues none, and once the flag is set no later
  event issues one. The request is for parent \<open>""\<close>, state \<open>NORMAL\<close>, order
  \<open>"display_time desc"\<close> and page size 20.
\<close>

theorem fetch_once_unless_reopened_in_flight:
  "(\<not> reopensInFlight (mount ms) evs \<longrightarrow>
      fetches (calls (run (mount ms) evs)) =
        (if everOpen (mount ms) evs then [recentRequest] else []))
   \<and> (\<not> open w \<and> \<not> hasFetchedMemos w \<and> inflight w = 0 \<and> open (step w ev) \<longrightarrow>
        fetches (calls (step w ev)) = fetches (calls w) @ [recentRequest])
   \<and> (open w \<or> \<not> open (step w ev) \<longrightarrow> fetches (calls (step w ev)) = fetches (calls w))
   \<and> (hasFetchedMemos w \<longrightarrow> fetches (calls (run w evs)) = fetches (calls w))
   \<and> parent recentRequest = lit '''' \<and> state recentRequest = NORMAL
   \<and> orderBy recentRequest = lit ''display_time desc'' \<and> pageSize recentRequest = 20"
proof -
  have "fetches (calls (step w ev)) = fetches (calls w) @ [recentRequest]"
    if "\<not> open w \<and> \<not> hasFetchedMemos w \<and> inflight w = 0 \<and> open (step w ev)"
  proof -
    from that have "issues w ev" by (simp add: issues_def step_hasFetched)
    then show ?thesis by (simp add: step_fetches)
  qed
  moreover have "fetches (calls (step w ev)) = fetches (calls w)"
    if "open w \<or> \<not> open (step w ev)"
  proof -
    from that have "\<not> issues w ev" by (auto simp add: issues_def)
    then show ?thesis by (simp add: step_fetches)
  qed
  ultimately show ?thesis
    using run_fresh [of "mount ms" evs] run_fetched [of w evs]
    by (simp add: mount_simp recentRequest_def)
qed

theorem fetch_once_unless_reopened_in_flight_witness:
  "\<not> reopensInFlight (mount [])
       [KeyDown ctrlK, Settled Rejected, KeyDown escape, KeyDown ctrlK]
   \<and> fetches (calls (run (mount [])
       [KeyDown ctrlK, Settled Rejected, KeyDown escape, KeyDown ctrlK])) = [recentRequest]
   \<and> open (step (mount []) (KeyDown ctrlK))
   \<and> fetches (calls (step (mount []) (KeyDown ctrlK))) = [recentRequest]
   \<and> \<not> open (step opened (KeyDown escape))
   \<and> fetches (calls (step opened (KeyDown escape))) = [recentRequest]
   \<and> hasFetchedMemos (step opened (Settled Rejected))
   \<and> fetches (calls (run (step opened (Settled Rejected)) [KeyDown escape, KeyDown ctrlK]))
       = [recentRequest]"
  using
    fetch_once_unless_reopened_in_flight
      [of "[]" "[KeyDown ctrlK, Settled Rejected, KeyDown escape, KeyDown ctrlK]"
        "mount []" "KeyDown ctrlK"]
    fetch_once_unless_reopened_in_flight
      [of "[]" "[KeyDown escape, KeyDown ctrlK]" opened "KeyDown escape"]
    fetch_once_unless_reopened_in_flight
      [of "[]" "[KeyDown escape, KeyDown ctrlK]" "step opened (Settled Rejected)"
        "KeyDown escape"]
  by (simp add: opened_def mount_def step_def commit_def fetchEffect_def handleKeyDown_def
      ctrlK_def escape_def lit_def settled_def promiseFinally_def)

text \<open>
  C1 as stated fails: the shortcut, Escape and the shortcut again, with the first fetch
  still in flight, issue two fetches.
\<close>

theorem reopen_in_flight_fetches_twice:
  "fetches (calls (run (mount []) [KeyDown ctrlK, KeyDown escape, KeyDown ctrlK]))
     = [recentRequest, recentRequest]
   \<and> \<not> length (fetches (calls (run (mount [])
          [KeyDown ctrlK, KeyDown escape, KeyDown ctrlK]))) \<le> 1"
  by (simp add: mount_def step_def commit_def fetchEffect_def handleKeyDown_def ctrlK_def
      escape_def lit_def)

text \<open>
  C2. The key k or K with the meta or the control modifier negates the open flag; Escape
  makes it false, which changes nothing on a closed palette; any other key leaves the
  state as it is. The effect that follows the handler does not touch the flag.
\<close>

theorem handleKeyDown_toggles_and_closes:
  "((key e = lit ''k'' \<or> key e = lit ''K'') \<and> (metaKey e \<or> ctrlKey e) \<longrightarrow>
      open (handleKeyDown e w) = (\<not> open w))
   \<and> (key e = lit ''Escape'' \<longrightarrow> \<not> open (handleKeyDown e w))
   \<and> (key e = lit ''Escape'' \<and> \<not> open w \<longrightarrow> step w (KeyDown e) = w)
   \<and> (\<not> ((key e = lit ''k'' \<or> key e = lit ''K'') \<and> (metaKey e \<or> ctrlKey e))
        \<and> key e \<noteq> lit ''Escape'' \<longrightarrow> handleKeyDown e w = w)
   \<and> open (step w (KeyDown e)) = open (handleKeyDown e w)"
  by (auto simp add: step_def commit_def fetchEffect_def handleKeyDown_def lit_def)

theorem handleKeyDown_toggles_and_closes_witness:
  "open (handleKeyDown ctrlK (mount []))
   \<and> \<not> open (handleKeyDown cmdShiftK opened)
   \<and> \<not> open (handleKeyDown escape opened)
   \<and> step (mount []) (KeyDown escape) = mount []
   \<and> handleKeyDown plainK opened = opened"
  using
    handleKeyDown_toggles_and_closes [of ctrlK "mount []"]
    handleKeyDown_toggles_and_closes [of cmdShiftK opened]
    handleKeyDown_toggles_and_closes [of escape opened]
    handleKeyDown_toggles_and_closes [of escape "mount []"]
    handleKeyDown_toggles_and_closes [of plainK opened]
  by (simp add: opened_def mount_def step_def commit_def fetchEffect_def handleKeyDown_def
      ctrlK_def cmdShiftK_def escape_def plainK_def lit_def)

text \<open>
  C3. When the name of a memo ends in a non-empty segment \<open>seg\<close> (the name is \<open>seg\<close>
  itself, or anything followed by \<open>/\<close> and \<open>seg\<close>), selecting its item makes the single
  call \<open>navigate("/memos/" + seg)\<close> and sets the open flag to false; no filter is added
  and nothing else changes.
\<close>

theorem memo_select_navigates:
  "seg \<noteq> [] \<and> of_char CHR ''/'' \<notin> set seg
   \<and> (name memo = seg \<or> name memo = p @ of_char CHR ''/'' # seg) \<longrightarrow>
     step w (Select (item_onSelect (memoItem memo))) =
       w\<lparr>calls := calls w @ [NavigateTo (lit ''/memos/'' @ seg)], open := False\<rparr>"
proof
  assume a: "seg \<noteq> [] \<and> of_char CHR ''/'' \<notin> set seg
   \<and> (name memo = seg \<or> name memo = p @ of_char CHR ''/'' # seg)"
  then have "last (split (name memo) (of_char CHR ''/'')) = seg"
    by (auto simp add: split_no_sep last_split_append)
  with a have "handleMemoSelect (name memo) w = handleNavigate (lit ''/memos/'' @ seg) w"
    by (simp add: handleMemoSelect_def pop_def split_not_Nil)
  then show "step w (Select (item_onSelect (memoItem memo))) =
       w\<lparr>calls := calls w @ [NavigateTo (lit ''/memos/'' @ seg)], open := False\<rparr>"
    by (simp add: memoItem_def step_select_closed handleNavigate_def)
qed

theorem memo_select_navigates_witness:
  "lit ''abc123'' \<noteq> [] \<and> of_char CHR ''/'' \<notin> set (lit ''abc123'')
   \<and> name sampleMemo = lit ''memos'' @ of_char CHR ''/'' # lit ''abc123''
   \<and> step opened (Select (item_onSelect (memoItem sampleMemo))) =
       opened\<lparr>calls := calls opened @ [NavigateTo (lit ''/memos/abc123'')], open := False\<rparr>"
  using memo_select_navigates [of "lit ''abc123''" sampleMemo "lit ''memos''" opened]
  by (simp add: sampleMemo_def lit_def)

text \<open>
  C4. The item of a tag carries \<open>handleTagSelect\<close> for that tag, and selecting it makes the
  single call \<open>addFilter({factor: "tagSearch", value: tag})\<close> and sets the open flag to
  false: the call log gains that one entry, so there is no navigation and no fetch.
\<close>

theorem tag_select_adds_filter:
  "item_onSelect (tagItem tag) = TagSelect tag
   \<and> step w (Select (item_onSelect (tagItem tag))) =
       w\<lparr>calls := calls w @ [AddFilter \<lparr>factor = lit ''tagSearch'', filter_value = tag\<rparr>],
         open := False\<rparr>"
  by (simp add: tagItem_def step_select_closed handleTagSelect_def)

theorem tag_select_adds_filter_witness:
  "step opened (Select (item_onSelect (tagItem (lit ''project'')))) =
     opened\<lparr>calls := calls opened @
         [AddFilter \<lparr>factor = lit ''tagSearch'', filter_value = lit ''project''\<rparr>],
       open := False\<rparr>"
  using tag_select_adds_filter [of "lit ''project''" opened]
  by blast

text \<open>
  C5. The static entries are Home, Inbox, Attachments, Archived, Settings and Explore,
  with the six paths of the route table in that order. Selecting the item of any of them
  makes the single call \<open>navigate(path)\<close> with the entry's path, sets the open flag to
  false, and issues no fetch.
\<close>

theorem static_select_navigates:
  "map action_label (staticActions routes) =
     [lit ''Home'', lit ''Inbox'', lit ''Attachments'', lit ''Archived'', lit ''Settings'',
      lit ''Explore'']
   \<and> map action_path (staticActions routes) =
     [ROOT routes, INBOX routes, ATTACHMENTS routes, ARCHIVED_route routes, SETTING routes,
      EXPLORE routes]
   \<and> (\<forall>a \<in> set (staticActions routes).
        step w (Select (item_onSelect (actionItem a))) =
          w\<lparr>calls := calls w @ [NavigateTo (action_path a)], open := False\<rparr>
        \<and> fetches (calls (step w (Select (item_onSelect (actionItem a))))) = fetches (calls w))"
  by (simp add: staticActions_def actionItem_def step_select_closed handleNavigate_def
      fetches_append)

theorem static_select_navigates_witness:
  "\<lparr>action_id = lit ''inbox'', action_label = lit ''Inbox'', action_path = lit ''/inbox'',
     action_icon = InboxIcon\<rparr> \<in> set (staticActions sampleRoutes)
   \<and> step opened (Select (Navigate (lit ''/inbox''))) =
       opened\<lparr>calls := calls opened @ [NavigateTo (lit ''/inbox'')], open := False\<rparr>
   \<and> fetches (calls (step opened (Select (Navigate (lit ''/inbox''))))) = fetches (calls opened)"
proof -
  let ?a = "\<lparr>action_id = lit ''inbox'', action_label = lit ''Inbox'',
    action_path = lit ''/inbox'', action_icon = InboxIcon\<rparr>"
  have m: "?a \<in> set (staticActions sampleRoutes)"
    by (simp add: staticActions_def sampleRoutes_def)
  from static_select_navigates [of sampleRoutes opened] m
  have "step opened (Select (item_onSelect (actionItem ?a))) =
          opened\<lparr>calls := calls opened @ [NavigateTo (action_path ?a)], open := False\<rparr>
        \<and> fetches (calls (step opened (Select (item_onSelect (actionItem ?a)))))
          = fetches (calls opened)"
    by blast
  with m show ?thesis by (simp add: actionItem_def fetches_append)
qed

text \<open>
  C6. The tag list is the keys of the tag-count object sorted by code units: it is
  sorted in the lexicographic order of strings and has exactly the keys, so two objects
  with the same keys in different iteration orders give the same list; the object
  \<open>{"b": 1, "a": 2}\<close> gives \<open>["a", "b"]\<close>. When there is a tag, the Tags group of the
  render holds one item per element of that list, in that order.
\<close>

theorem tagItems_sorted_keys:
  "sorted (tagItems tc) \<and> mset (tagItems tc) = mset (keys tc)
   \<and> (mset (keys tc') = mset (keys tc) \<longrightarrow> tagItems tc' = tagItems tc)
   \<and> tagItems [(lit ''b'', 1), (lit ''a'', 2)] = [lit ''a'', lit ''b'']
   \<and> (tc \<noteq> [] \<longrightarrow>
        CommandGroup (lit ''Tags'') (map tagItem (tagItems tc))
          \<in> set (commandList (render routes tc w))
        \<and> map item_key (map tagItem (tagItems tc)) = tagItems tc)"
proof -
  have "tagItems tc' = tagItems tc" if "mset (keys tc') = mset (keys tc)"
    unfolding tagItems_def
    by (rule properties_for_sort) (simp_all add: that)
  moreover have "tagItems [(lit ''b'', 1), (lit ''a'', 2)] = [lit ''a'', lit ''b'']"
    by (simp add: tagItems_def keys_def lit_def)
  moreover have "map item_key (map tagItem xs) = xs" for xs
    by (induction xs) (simp_all add: tagItem_def)
  ultimately show ?thesis
    by (simp add: commandList_render) (simp add: tagItems_def)
qed

theorem tagItems_sorted_keys_witness:
  "mset (keys [(lit ''a'', 2), (lit ''b'', 1)]) = mset (keys [(lit ''b'', 1), (lit ''a'', 2)])
   \<and> tagItems [(lit ''a'', 2), (lit ''b'', 1)] = [lit ''a'', lit ''b'']
   \<and> CommandGroup (lit ''Tags'') [tagItem (lit ''a''), tagItem (lit ''b'')]
        \<in> set (commandList (render sampleRoutes [(lit ''b'', 1), (lit ''a'', 2)] opened))"
proof -
  let ?tc = "[(lit ''b'', 1 :: nat), (lit ''a'', 2)]"
  let ?tc' = "[(lit ''a'', 2 :: nat), (lit ''b'', 1)]"
  note t = tagItems_sorted_keys [of ?tc ?tc' sampleRoutes opened]
  have k: "mset (keys ?tc') = mset (keys ?tc)"
    by (simp add: keys_def)
  have n: "?tc \<noteq> []" by simp
  from t have e: "tagItems ?tc = [lit ''a'', lit ''b'']" by blast
  from t k have e': "tagItems ?tc' = tagItems ?tc" by blast
  from t n have "CommandGroup (lit ''Tags'') (map tagItem (tagItems ?tc))
      \<in> set (commandList (render sampleRoutes ?tc opened))"
    by blast
  with k e e' show ?thesis by simp
qed

text \<open>
  C7. With an empty list of memos the render has no group headed "Recent Memos" and no
  separator for it: the only separator left is the one of the Tags group, if there are
  tags. With an empty tag-count object the same holds for the group headed "Tags".
\<close>

theorem empty_groups_absent:
  "(memos w = [] \<longrightarrow>
      lit ''Recent Memos'' \<notin> set (headings (commandList (render routes tc w)))
      \<and> separators (commandList (render routes tc w)) = (if tc = [] then 0 else 1))
   \<and> (tc = [] \<longrightarrow>
      lit ''Tags'' \<notin> set (headings (commandList (render routes tc w)))
      \<and> separators (commandList (render routes tc w)) = (if memos w = [] then 0 else 1))"
  using heading_neq by (auto simp add: commandList_render separators_def)

theorem empty_groups_absent_witness:
  "memos opened = []
   \<and> lit ''Recent Memos'' \<notin>
       set (headings (commandList (render sampleRoutes [(lit ''b'', 1)] opened)))
   \<and> separators (commandList (render sampleRoutes [(lit ''b'', 1)] opened)) = 1
   \<and> lit ''Tags'' \<notin>
       set (headings (commandList (render sampleRoutes [] (opened\<lparr>memos := [sampleMemo]\<rparr>))))
   \<and> separators (commandList (render sampleRoutes [] (opened\<lparr>memos := [sampleMemo]\<rparr>))) = 1"
proof -
  have m: "memos opened = []"
    by (simp add: opened_def step_def commit_fields keyDown_fields mount_simp)
  from m empty_groups_absent [of opened sampleRoutes "[(lit ''b'', 1)]"]
    empty_groups_absent [of "opened\<lparr>memos := [sampleMemo]\<rparr>" sampleRoutes "[]"]
  show ?thesis by simp
qed

text \<open>
  C8 (as the code has it). When the promise of a fetch settles, fulfilled or rejected,
  the callback of \<open>.finally\<close> sets the has-fetched flag, and from then on no sequence of
  events issues a fetch: a failed fetch is not retried. Nothing is raised to a caller,
  but a failure is not swallowed either: the promise that \<open>.finally\<close> returns is rejected
  with no handler, one more unhandled rejection. Apart from that the component does the
  same on both outcomes: it makes no call and leaves the open flag and the list of memos
  alone, so the command list rendered after the promise settled is the one rendered
  before.
\<close>

theorem fetch_settled_sets_flag:
  "0 < inflight w \<longrightarrow>
     hasFetchedMemos (step w (Settled out))
     \<and> step w (Settled out) =
         w\<lparr>inflight := inflight w - 1, hasFetchedMemos := True,
           unhandled := (if out = Rejected then Suc (unhandled w) else unhandled w)\<rparr>
     \<and> fetches (calls (run (step w (Settled out)) evs)) = fetches (calls w)
     \<and> commandList (render routes tc (step w (Settled out))) = commandList (render routes tc w)"
proof
  assume pos: "0 < inflight w"
  have st: "step w (Settled out) =
      w\<lparr>inflight := inflight w - 1, hasFetchedMemos := True,
        unhandled := (if out = Rejected then Suc (unhandled w) else unhandled w)\<rparr>"
    using pos by (rule step_settled)
  have hf: "hasFetchedMemos (step w (Settled out))"
    by (simp add: st)
  have "fetches (calls (run (step w (Settled out)) evs)) = fetches (calls (step w (Settled out)))"
    using run_fetched [OF hf] by simp
  also have "\<dots> = fetches (calls w)"
    by (simp add: st)
  finally have nofetch: "fetches (calls (run (step w (Settled out)) evs)) = fetches (calls w)" .
  have same: "commandList (render routes tc (step w (Settled out)))
      = commandList (render routes tc w)"
    by (simp add: st commandList_render)
  from hf st nofetch same
  show "hasFetchedMemos (step w (Settled out))
     \<and> step w (Settled out) =
         w\<lparr>inflight := inflight w - 1, hasFetchedMemos := True,
           unhandled := (if out = Rejected then Suc (unhandled w) else unhandled w)\<rparr>
     \<and> fetches (calls (run (step w (Settled out)) evs)) = fetches (calls w)
     \<and> commandList (render routes tc (step w (Settled out))) = commandList (render routes tc w)"
    by blast
qed

theorem fetch_settled_sets_flag_witness:
  "0 < inflight opened
   \<and> hasFetchedMemos (step opened (Settled Rejected))
   \<and> hasFetchedMemos (step opened (Settled Resolved))
   \<and> step opened (Settled Rejected) =
       opened\<lparr>inflight := 0, hasFetchedMemos := True, unhandled := 1\<rparr>
   \<and> step opened (Settled Resolved) =
       opened\<lparr>inflight := 0, hasFetchedMemos := True, unhandled := 0\<rparr>
   \<and> fetches (calls (run (step opened (Settled Rejected)) [KeyDown escape, KeyDown ctrlK]))
       = [recentRequest]
   \<and> commandList (render sampleRoutes [] (step opened (Settled Rejected)))
       = commandList (render sampleRoutes [] opened)"
proof -
  have o: "opened =
      \<lparr>open = True, hasFetchedMemos = False, memos = [], inflight = 1,
       calls = [PreventDefault, FetchMemos recentRequest], unhandled = 0\<rparr>"
    by (simp add: opened_def mount_def step_def commit_def fetchEffect_def handleKeyDown_def
        ctrlK_def lit_def)
  have p: "0 < inflight opened" "inflight opened - 1 = 0" "unhandled opened = 0"
    "fetches (calls opened) = [recentRequest]"
    by (simp_all add: o)
  from p
    fetch_settled_sets_flag
      [of opened Rejected "[KeyDown escape, KeyDown ctrlK]" sampleRoutes "[]"]
    fetch_settled_sets_flag
      [of opened Resolved "[KeyDown escape, KeyDown ctrlK]" sampleRoutes "[]"]
  show ?thesis by auto
qed

text \<open>
  C8 as stated fails: an empty group is not the only observable consequence of a failed
  fetch. After a rejection the palette holds one unhandled rejection, after a fulfilment
  none.
\<close>

theorem rejected_fetch_left_unhandled:
  "unhandled (step opened (Settled Rejected)) = 1
   \<and> unhandled (step opened (Settled Resolved)) = 0
   \<and> step opened (Settled Rejected) \<noteq> step opened (Settled Resolved)"
proof -
  have o: "opened =
      \<lparr>open = True, hasFetchedMemos = False, memos = [], inflight = 1,
       calls = [PreventDefault, FetchMemos recentRequest], unhandled = 0\<rparr>"
    by (simp add: opened_def mount_def step_def commit_def fetchEffect_def handleKeyDown_def
        ctrlK_def lit_def)
  have r: "unhandled (step opened (Settled Rejected)) = 1"
    by (simp add: o step_def commit_def fetchEffect_def settled_def promiseFinally_def)
  have f: "unhandled (step opened (Settled Resolved)) = 0"
    by (simp add: o step_def commit_def fetchEffect_def settled_def promiseFinally_def)
  from r f have "step opened (Settled Rejected) \<noteq> step opened (Settled Resolved)"
    by auto
  with r f show ?thesis by blast
qed

text \<open>
  C9. When the name of a memo is empty or ends in \<open>/\<close>, its trailing segment is empty and
  selecting its item changes nothing: no call is made and the open flag stays as it was.
  Every other selection (a memo whose name ends otherwise, a static entry, a tag) leaves
  the palette closed.
\<close>

theorem memo_select_empty_segment:
  "(name memo = [] \<or> last (name memo) = of_char CHR ''/'' \<longrightarrow>
      step w (Select (item_onSelect (memoItem memo))) = w)
   \<and> (name memo \<noteq> [] \<and> last (name memo) \<noteq> of_char CHR ''/'' \<longrightarrow>
      \<not> open (step w (Select (item_onSelect (memoItem memo)))))
   \<and> \<not> open (step w (Select (Navigate path)))
   \<and> \<not> open (step w (Select (TagSelect tag)))"
proof -
  have e: "(last (split (name memo) (of_char CHR ''/'')) = [])
      = (name memo = [] \<or> last (name memo) = of_char CHR ''/'')"
    by (rule last_split_empty)
  have "handleMemoSelect (name memo) w = w"
    if "name memo = [] \<or> last (name memo) = of_char CHR ''/''"
    using that e by (simp add: handleMemoSelect_def pop_def split_not_Nil)
  then have 1: "step w (Select (item_onSelect (memoItem memo))) = w"
    if "name memo = [] \<or> last (name memo) = of_char CHR ''/''"
    using that by (simp add: memoItem_def step_def commit_def)
  have "\<not> open (handleMemoSelect (name memo) w)"
    if "name memo \<noteq> [] \<and> last (name memo) \<noteq> of_char CHR ''/''"
    using that e by (simp add: handleMemoSelect_def pop_def split_not_Nil handleNavigate_def)
  then have 2: "\<not> open (step w (Select (item_onSelect (memoItem memo))))"
    if "name memo \<noteq> [] \<and> last (name memo) \<noteq> of_char CHR ''/''"
    using that by (simp add: memoItem_def step_open)
  have 3: "\<not> open (step w (Select (Navigate path)))" "\<not> open (step w (Select (TagSelect tag)))"
    by (simp_all add: step_open handleNavigate_def handleTagSelect_def)
  from 1 2 3 show ?thesis by blast
qed

theorem memo_select_empty_segment_witness:
  "last (lit ''memos/'') = of_char CHR ''/''
   \<and> step opened (Select (item_onSelect (memoItem \<lparr>name = lit ''memos/'', content = []\<rparr>)))
       = opened
   \<and> open opened
   \<and> name sampleMemo \<noteq> [] \<and> last (name sampleMemo) \<noteq> of_char CHR ''/''
   \<and> \<not> open (step opened (Select (item_onSelect (memoItem sampleMemo))))"
proof -
  have l: "last (lit ''memos/'') = of_char CHR ''/''"
    "name sampleMemo \<noteq> [] \<and> last (name sampleMemo) \<noteq> of_char CHR ''/''"
    by (simp_all add: lit_def sampleMemo_def)
  have o: "open opened"
    by (simp add: opened_def step_open handleKeyDown_def ctrlK_def mount_simp)
  from l o
    memo_select_empty_segment [of "\<lparr>name = lit ''memos/'', content = []\<rparr>" opened]
    memo_select_empty_segment [of sampleMemo opened]
  show ?thesis by simp
qed

text \<open>
  C10. The label of a memo's item is the first 50 code units of its content (the whole
  content when it is shorter), and the memo's full name when the content is empty. The
  items that the render displays under "Recent Memos" are those of the memos of the
  store, one each and in order, with these labels and with the names as keys.
\<close>

theorem memo_label_first_50:
  "item_label (memoItem memo) =
     (if content memo = [] then name memo else take 50 (content memo))
   \<and> groupItems (lit ''Recent Memos'') (commandList (render routes tc w))
       = map memoItem (memos w)
   \<and> map item_label (groupItems (lit ''Recent Memos'') (commandList (render routes tc w)))
       = map (\<lambda>m. if content m = [] then name m else take 50 (content m)) (memos w)
   \<and> map item_key (groupItems (lit ''Recent Memos'') (commandList (render routes tc w)))
       = map name (memos w)"
proof -
  have l: "item_label (memoItem m) = (if content m = [] then name m else take 50 (content m))"
    for m
    by (simp add: memoItem_def memoLabel_def slice0_def Let_def)
  have g: "groupItems (lit ''Recent Memos'') (commandList (render routes tc w))
      = map memoItem (memos w)"
    using heading_neq by (auto simp add: commandList_render)
  have k: "item_key (memoItem m) = name m" for m
    by (simp add: memoItem_def)
  from l g k show ?thesis by (simp add: comp_def)
qed

theorem memo_label_first_50_witness:
  "item_label (memoItem sampleMemo) = lit ''Buy milk''
   \<and> map item_label (groupItems (lit ''Recent Memos'')
        (commandList (render sampleRoutes [(lit ''b'', 1)]
          (opened\<lparr>memos :=
             [sampleMemo,
              \<lparr>name = lit ''memos/abc123'', content = []\<rparr>,
              \<lparr>name = lit ''memos/long'', content = replicate 60 (of_char CHR ''x'')\<rparr>]\<rparr>))))
       = [lit ''Buy milk'', lit ''memos/abc123'', replicate 50 (of_char CHR ''x'')]"
  using memo_label_first_50 [of sampleMemo sampleRoutes "[(lit ''b'', 1)]"
      "opened\<lparr>memos :=
         [sampleMemo,
          \<lparr>name = lit ''memos/abc123'', content = []\<rparr>,
          \<lparr>name = lit ''memos/long'', content = replicate 60 (of_char CHR ''x'')\<rparr>]\<rparr>"]
  by (auto simp add: sampleMemo_def lit_def)

end
